theory Spec2Isabelle
  imports Complex_Main
begin

section \<open>Zebra path data: the match parser and the competition index\<close>

text \<open>
  A shallow embedding of \<^verbatim>\<open>src/zebra/path.py\<close>: the class \<^verbatim>\<open>Match\<close> (one match of
  the JSONL data file) and the class \<^verbatim>\<open>Competitions\<close> (the matches of a file, indexed
  by match key and by position).

  A Python exception is a value of \<open>error\<close>; a function that can raise returns
  \<open>error + 'a\<close>, with \<open>Inl\<close> for the exception.
\<close>

datatype error =
    KeyError
  | IndexError
  | TypeError
  | ValueError
  | UnboundLocalError
  | JSONDecodeError

subsection \<open>The path scan of one station\<close>

text \<open>
  A coordinate sample is a number or JSON \<^verbatim>\<open>null\<close> (Python \<^verbatim>\<open>None\<close>). The scan only
  compares samples with \<^verbatim>\<open>None\<close> and copies them, so a number is a \<open>real\<close>.
\<close>

type_synonym coord = "real option"

text \<open>
  The dictionary returned by \<^verbatim>\<open>Match._scan_path\<close>, keys \<^verbatim>\<open>'start'\<close>, \<^verbatim>\<open>'end'\<close>,
  \<^verbatim>\<open>'n'\<close> and \<^verbatim>\<open>'missing'\<close>. The values of \<^verbatim>\<open>'start'\<close>, \<^verbatim>\<open>'end'\<close> and \<^verbatim>\<open>'missing'\<close>
  can be \<^verbatim>\<open>None\<close>.
\<close>

record path_stats =
  st_start :: "(real \<times> real \<times> nat) option"
  st_end :: "(real \<times> real \<times> nat) option"
  st_n :: int
  st_missing :: "nat list option"

text \<open>
  Lines 56 to 59: the indices \<open>t\<close> of \<^verbatim>\<open>enumerate(zip(xs, ys))\<close> at which one of the two
  coordinates is \<^verbatim>\<open>None\<close>.
\<close>

definition missing_coords :: "coord list \<Rightarrow> coord list \<Rightarrow> nat list" where
  "missing_coords xs ys =
     map fst (filter (\<lambda>(t, c). fst c = None \<or> snd c = None) (enumerate 0 (zip xs ys)))"

text \<open>
  The two loops of lines 61 to 68 run over an enumerated list of pairs and stop, with
  \<^verbatim>\<open>break\<close>, at the first pair without \<^verbatim>\<open>None\<close>; they bind a triple whose third
  component is computed from \<open>t\<close> by \<open>f\<close>. The result \<open>None\<close> says that the loop ended
  without binding its variable.
\<close>

fun first_valid :: "(nat \<Rightarrow> nat) \<Rightarrow> (nat \<times> coord \<times> coord) list \<Rightarrow> (real \<times> real \<times> nat) option" where
  "first_valid f [] = None"
| "first_valid f ((t, Some x, Some y) # rest) = Some (x, y, f t)"
| "first_valid f ((t, c) # rest) = first_valid f rest"

text \<open>
  \<^verbatim>\<open>Match._scan_path\<close>. The guard of line 53 returns at once when every \<open>x\<close> and every
  \<open>y\<close> is \<^verbatim>\<open>None\<close>. Otherwise \<^verbatim>\<open>start\<close> is bound by the forward loop and \<^verbatim>\<open>end\<close> by the
  loop over the flipped arrays, where the index recorded is \<^verbatim>\<open>len(xs) - t\<close>; the
  \<^verbatim>\<open>return\<close> of line 70 reads both variables and raises \<^verbatim>\<open>UnboundLocalError\<close> when a
  loop did not bind its variable.
\<close>

definition scan_path :: "coord list \<Rightarrow> coord list \<Rightarrow> error + path_stats" where
  "scan_path xs ys =
     (if list_all (\<lambda>x. x = None) xs \<and> list_all (\<lambda>y. y = None) ys
      then Inr \<lparr>st_start = None, st_end = None, st_n = 0, st_missing = None\<rparr>
      else
        (case first_valid (\<lambda>t. t) (enumerate 0 (zip xs ys)) of
           None \<Rightarrow> Inl UnboundLocalError
         | Some start \<Rightarrow>
             (case first_valid (\<lambda>t. length xs - t) (enumerate 0 (zip (rev xs) (rev ys))) of
                None \<Rightarrow> Inl UnboundLocalError
              | Some end' \<Rightarrow>
                  Inr \<lparr>st_start = Some start, st_end = Some end',
                       st_n = int (length xs) - int (length (missing_coords xs ys)),
                       st_missing = Some (missing_coords xs ys)\<rparr>)))"

subsection \<open>Python sequences\<close>

text \<open>
  Indexing a Python list or a NumPy array with an integer: a negative index counts
  from the end, an index outside \<open>[-len, len)\<close> raises \<^verbatim>\<open>IndexError\<close>.
\<close>

definition list_getitem :: "'a list \<Rightarrow> int \<Rightarrow> error + 'a" where
  "list_getitem xs i =
     (if 0 \<le> i \<and> i < int (length xs) then Inr (xs ! nat i)
      else if - int (length xs) \<le> i \<and> i < 0 then Inr (xs ! nat (int (length xs) + i))
      else Inl IndexError)"

text \<open>
  A list comprehension or a loop of appends whose body can raise: the elements are
  computed from left to right and the first exception ends the loop.
\<close>

fun mapM :: "('a \<Rightarrow> error + 'b) \<Rightarrow> 'a list \<Rightarrow> error + 'b list" where
  "mapM f [] = Inr []"
| "mapM f (x # xs) =
     (case f x of
        Inl e \<Rightarrow> Inl e
      | Inr y \<Rightarrow> (case mapM f xs of Inl e \<Rightarrow> Inl e | Inr ys \<Rightarrow> Inr (y # ys)))"

subsection \<open>The decoded line of the data file\<close>

text \<open>
  The value of the key \<^verbatim>\<open>'score'\<close> is kept as it is decoded.
\<close>

datatype json =
    JNull
  | JBool bool
  | JNum real
  | JStr string
  | JArr "json list"
  | JObj "(string \<times> json) list"

text \<open>
  A line of the file is the dictionary that \<^verbatim>\<open>download_match\<close>
  (\<^verbatim>\<open>src/pviewer/zebra/data.py\<close>, lines 50 to 54) writes: the keys \<^verbatim>\<open>'event'\<close>,
  \<^verbatim>\<open>'match'\<close>, \<^verbatim>\<open>'zebra'\<close> and \<^verbatim>\<open>'score'\<close>, where \<^verbatim>\<open>'zebra'\<close> is \<^verbatim>\<open>null\<close> for a
  match without tracking data. The tracking data hold the two alliance lists and the
  time stamps. A team entry is a dictionary of its own, in which each of the keys
  \<^verbatim>\<open>'team_key'\<close>, \<^verbatim>\<open>'xs'\<close> and \<^verbatim>\<open>'ys'\<close> can be absent (\<open>None\<close>); the alliance lists
  have any length.
\<close>

record team_entry =
  team_key :: "string option"
  team_xs :: "coord list option"
  team_ys :: "coord list option"

record zebra =
  alliances_blue :: "team_entry list"
  alliances_red :: "team_entry list"
  zebra_times :: "real list"

record match_json =
  json_event :: string
  json_match :: string
  json_zebra :: "zebra option"
  json_score :: json

text \<open>\<^verbatim>\<open>zebra['alliances'][alliance]\<close>, for the two alliance names of line 30.\<close>

definition alliances :: "zebra \<Rightarrow> string \<Rightarrow> team_entry list" where
  "alliances z alliance =
     (if alliance = ''blue'' then alliances_blue z else alliances_red z)"

text \<open>\<^verbatim>\<open>team['team_key']\<close> and \<^verbatim>\<open>team[axis]\<close>: a missing key raises \<^verbatim>\<open>KeyError\<close>.\<close>

definition team_getitem_key :: "team_entry \<Rightarrow> error + string" where
  "team_getitem_key team =
     (case team_key team of None \<Rightarrow> Inl KeyError | Some k \<Rightarrow> Inr k)"

definition team_getitem_axis :: "team_entry \<Rightarrow> string \<Rightarrow> error + coord list" where
  "team_getitem_axis team axis =
     (if axis = ''xs'' then (case team_xs team of None \<Rightarrow> Inl KeyError | Some p \<Rightarrow> Inr p)
      else if axis = ''ys'' then (case team_ys team of None \<Rightarrow> Inl KeyError | Some p \<Rightarrow> Inr p)
      else Inl KeyError)"

subsection \<open>The class Match\<close>

text \<open>
  The value stored in \<^verbatim>\<open>self.teams\<close> for a team: the dictionary of the scan, with
  the keys \<^verbatim>\<open>'xs'\<close>, \<^verbatim>\<open>'ys'\<close> and \<^verbatim>\<open>'station'\<close> added by lines 46 to 48.
\<close>

record team_data = path_stats +
  td_xs :: "coord list"
  td_ys :: "coord list"
  td_station :: string

record Match =
  event :: string
  match :: string
  blue :: "string list"
  red :: "string list"
  paths :: "coord list list"
  times :: "real list"
  score :: json
  teams :: "string \<rightharpoonup> team_data"

definition stations :: "string list" where
  "stations = [''blue1'', ''blue2'', ''blue3'', ''red1'', ''red2'', ''red3'']"

text \<open>
  \<^verbatim>\<open>np.array(paths)\<close> on a list of rows of numbers and \<^verbatim>\<open>None\<close>: rows of one length
  give a two-dimensional array, whose rows \<^verbatim>\<open>self.paths[i]\<close> are the rows given. Rows
  of different lengths are refused with \<^verbatim>\<open>ValueError\<close> (NumPy 1.24 and later; the
  array of list objects that earlier versions build with a warning is not modelled).
\<close>

definition np_array :: "coord list list \<Rightarrow> error + coord list list" where
  "np_array rows =
     (if list_all (\<lambda>r. length r = length (hd rows)) rows then Inr rows else Inl ValueError)"

text \<open>
  Lines 41 to 49, the loop over \<^verbatim>\<open>enumerate(teams_list)\<close>: the two rows of the team
  are read, scanned, and the result is stored under the team key; a later entry with
  the same team key replaces the earlier one.
\<close>

fun teams_loop ::
  "coord list list \<Rightarrow> (nat \<times> string) list \<Rightarrow> (string \<rightharpoonup> team_data) \<Rightarrow> error + (string \<rightharpoonup> team_data)" where
  "teams_loop ps [] tms = Inr tms"
| "teams_loop ps ((idx, tm) # rest) tms =
     (case list_getitem ps (int (2 * idx)) of
        Inl e \<Rightarrow> Inl e
      | Inr xs \<Rightarrow>
     (case list_getitem ps (int (2 * idx + 1)) of
        Inl e \<Rightarrow> Inl e
      | Inr ys \<Rightarrow>
     (case scan_path xs ys of
        Inl e \<Rightarrow> Inl e
      | Inr d \<Rightarrow>
     (case list_getitem stations (int idx) of
        Inl e \<Rightarrow> Inl e
      | Inr st \<Rightarrow>
          teams_loop ps rest
            (tms(tm \<mapsto> \<lparr>st_start = st_start d, st_end = st_end d, st_n = st_n d,
                         st_missing = st_missing d, td_xs = xs, td_ys = ys,
                         td_station = st\<rparr>))))))"

text \<open>
  Lines 29 to 33: the pairs of team and axis in the order of the three nested loops.
\<close>

definition path_axes :: "zebra \<Rightarrow> (team_entry \<times> string) list" where
  "path_axes z =
     concat (map (\<lambda>alliance.
        concat (map (\<lambda>team. map (\<lambda>axis. (team, axis)) [''xs'', ''ys'']) (alliances z alliance)))
       [''blue'', ''red''])"

text \<open>
  Lines 23 to 49, on the decoded dictionary. Subscripting the \<^verbatim>\<open>None\<close> of a line
  without tracking data raises \<^verbatim>\<open>TypeError\<close>.
\<close>

definition Match_of_dict :: "match_json \<Rightarrow> error + Match" where
  "Match_of_dict d =
     (case json_zebra d of
        None \<Rightarrow> Inl TypeError
      | Some z \<Rightarrow>
     (case mapM team_getitem_key (alliances z ''blue'') of
        Inl e \<Rightarrow> Inl e
      | Inr blue_keys \<Rightarrow>
     (case mapM team_getitem_key (alliances z ''red'') of
        Inl e \<Rightarrow> Inl e
      | Inr red_keys \<Rightarrow>
     (case mapM (\<lambda>(team, axis). team_getitem_axis team axis) (path_axes z) of
        Inl e \<Rightarrow> Inl e
      | Inr rows \<Rightarrow>
     (case np_array rows of
        Inl e \<Rightarrow> Inl e
      | Inr ps \<Rightarrow>
     (case teams_loop ps (enumerate 0 (blue_keys @ red_keys)) Map.empty of
        Inl e \<Rightarrow> Inl e
      | Inr tms \<Rightarrow>
          Inr \<lparr>event = json_event d, match = json_match d, blue = blue_keys, red = red_keys,
               paths = ps, times = zebra_times z, score = json_score d, teams = tms\<rparr>))))))"

text \<open>
  The constructor takes a JSON text or a decoded dictionary (lines 21 and 22).
  \<^verbatim>\<open>json.loads\<close> belongs to the standard library: it is the parameter \<open>json_loads\<close>,
  which gives \<open>None\<close> for a text that it refuses.
\<close>

datatype match_arg = Str string | Dict match_json

definition Match_init :: "(string \<Rightarrow> match_json option) \<Rightarrow> match_arg \<Rightarrow> error + Match" where
  "Match_init json_loads arg =
     (case arg of
        Str s \<Rightarrow> (case json_loads s of None \<Rightarrow> Inl JSONDecodeError | Some d \<Rightarrow> Match_of_dict d)
      | Dict d \<Rightarrow> Match_of_dict d)"

subsection \<open>The class Competitions\<close>

record Competitions =
  file_paths :: "match_json list"
  event_summary :: "string \<rightharpoonup> int"
  zmatches :: "Match list"
  mindex :: "string \<rightharpoonup> nat"
  events :: "string set"

text \<open>
  Lines 133 to 137: the data frame of the columns \<^verbatim>\<open>'event'\<close> and \<^verbatim>\<open>'path'\<close>, grouped
  by \<^verbatim>\<open>'event'\<close> and aggregated with the sum of \<^verbatim>\<open>'path'\<close>. The result has one row for
  each event of the column, holding the sum over the rows of that event.
\<close>

definition groupby_sum :: "string list \<Rightarrow> int list \<Rightarrow> (string \<rightharpoonup> int)" where
  "groupby_sum keys vals =
     (\<lambda>e. if e \<in> set keys
           then Some (sum_list (map snd (filter (\<lambda>kv. fst kv = e) (zip keys vals))))
           else None)"

text \<open>Line 109: the dictionary comprehension, in which a later match key replaces an earlier one.\<close>

definition build_mindex :: "Match list \<Rightarrow> (string \<rightharpoonup> nat)" where
  "build_mindex zms = fold (\<lambda>(idx, zm) m. m(match zm \<mapsto> idx)) (enumerate 0 zms) Map.empty"

text \<open>
  \<^verbatim>\<open>Competitions.__init__\<close> with \<^verbatim>\<open>_read_file\<close>, on the lines of the file.
\<close>

definition Competitions_init :: "(string \<Rightarrow> match_json option) \<Rightarrow> string list \<Rightarrow> error + Competitions" where
  "Competitions_init json_loads file =
     (case mapM (\<lambda>line. case json_loads line of None \<Rightarrow> Inl JSONDecodeError | Some d \<Rightarrow> Inr d) file of
        Inl e \<Rightarrow> Inl e
      | Inr ps \<Rightarrow>
     (case mapM (\<lambda>path. Match_init json_loads (Dict path))
                (filter (\<lambda>path. json_zebra path \<noteq> None) ps) of
        Inl e \<Rightarrow> Inl e
      | Inr zms \<Rightarrow>
          Inr \<lparr>file_paths = ps,
               event_summary =
                 groupby_sum (map json_event ps)
                   (map (\<lambda>path. if json_zebra path = None then 0 else 1) ps),
               zmatches = zms,
               mindex = build_mindex zms,
               events = set (map event zms)\<rparr>))"

datatype index = IntIdx int | KeyIdx string

definition Competitions_getitem :: "Competitions \<Rightarrow> index \<Rightarrow> error + Match" where
  "Competitions_getitem c idx =
     (case idx of
        IntIdx i \<Rightarrow> list_getitem (zmatches c) i
      | KeyIdx k \<Rightarrow>
          (case mindex c k of
             None \<Rightarrow> Inl KeyError
           | Some i \<Rightarrow> list_getitem (zmatches c) (int i)))"

definition Competitions_len :: "Competitions \<Rightarrow> int" where
  "Competitions_len c = int (length (zmatches c))"

definition matches :: "Competitions \<Rightarrow> string \<Rightarrow> string list" where
  "matches c ev = map match (filter (\<lambda>zmatch. event zmatch = ev) (zmatches c))"

section \<open>Notions of the specification\<close>

text \<open>
  A station is entirely missing when every \<open>x\<close> and every \<open>y\<close> is missing; it has a
  valid sample when at some index neither \<open>x\<close> nor \<open>y\<close> is missing.
\<close>

definition all_missing :: "coord list \<Rightarrow> coord list \<Rightarrow> bool" where
  "all_missing xs ys = (list_all (\<lambda>x. x = None) xs \<and> list_all (\<lambda>y. y = None) ys)"

definition has_valid :: "coord list \<Rightarrow> coord list \<Rightarrow> bool" where
  "has_valid xs ys = list_ex (\<lambda>c. fst c \<noteq> None \<and> snd c \<noteq> None) (zip xs ys)"

text \<open>A team entry with its three keys, and its two rows.\<close>

definition complete_team :: "team_entry \<Rightarrow> bool" where
  "complete_team team = (team_key team \<noteq> None \<and> team_xs team \<noteq> None \<and> team_ys team \<noteq> None)"

definition team_rows :: "team_entry \<Rightarrow> coord list list" where
  "team_rows team =
     (case team_xs team of
        None \<Rightarrow> []
      | Some p \<Rightarrow> (case team_ys team of None \<Rightarrow> [] | Some q \<Rightarrow> [p, q]))"

definition team_name :: "team_entry \<Rightarrow> string" where
  "team_name team = (case team_key team of None \<Rightarrow> [] | Some k \<Rightarrow> k)"

text \<open>A team entry whose station the scan accepts: entirely missing, or with a valid sample.\<close>

definition scannable_team :: "team_entry \<Rightarrow> bool" where
  "scannable_team team =
     (case team_rows team of
        [p, q] \<Rightarrow> all_missing p q \<or> has_valid p q
      | _ \<Rightarrow> False)"

text \<open>
  A valid raw match record: tracking data are present, each alliance list holds exactly
  3 complete team entries, and all rows have one length.
\<close>

definition valid_record :: "match_json \<Rightarrow> bool" where
  "valid_record d =
     (case json_zebra d of
        None \<Rightarrow> False
      | Some z \<Rightarrow>
          length (alliances_blue z) = 3 \<and> length (alliances_red z) = 3 \<and>
          list_all complete_team (alliances_blue z @ alliances_red z) \<and>
          list_all (\<lambda>r. length r = length (zebra_times z))
            (concat (map team_rows (alliances_blue z @ alliances_red z))))"

subsection \<open>Sample data\<close>

text \<open>
  The file of the scenario of the specification: three lines of the event
  \<^verbatim>\<open>2020wasno\<close>, of which the second has no tracking data; every station has two valid
  samples. The text of a line is only what \<open>json_loads\<close> decodes, here by a table.
\<close>

definition sample_team :: "string \<Rightarrow> team_entry" where
  "sample_team k =
     \<lparr>team_key = Some k, team_xs = Some [Some 1, Some 2], team_ys = Some [Some 3, Some 4]\<rparr>"

definition sample_zebra :: zebra where
  "sample_zebra =
     \<lparr>alliances_blue = [sample_team ''frc1'', sample_team ''frc2'', sample_team ''frc3''],
      alliances_red = [sample_team ''frc4'', sample_team ''frc5'', sample_team ''frc6''],
      zebra_times = [0, 1]\<rparr>"

definition sample_line :: "string \<Rightarrow> string \<Rightarrow> zebra option \<Rightarrow> match_json" where
  "sample_line ev k z = \<lparr>json_event = ev, json_match = k, json_zebra = z, json_score = JNull\<rparr>"

definition scenario_table :: "(string \<times> match_json) list" where
  "scenario_table =
     [(''line1'', sample_line ''2020wasno'' ''qm1'' (Some sample_zebra)),
      (''line2'', sample_line ''2020wasno'' ''qm2'' None),
      (''line3'', sample_line ''2020wasno'' ''qm3'' (Some sample_zebra))]"

text \<open>A file in which no line has tracking data.\<close>

definition no_zebra_table :: "(string \<times> match_json) list" where
  "no_zebra_table =
     [(''line1'', sample_line ''2020wasno'' ''qm1'' None),
      (''line2'', sample_line ''2020wasno'' ''qm2'' None)]"

text \<open>A file in which two lines of different events have the same match key.\<close>

definition duplicate_table :: "(string \<times> match_json) list" where
  "duplicate_table =
     [(''line1'', sample_line ''2020wasno'' ''qm1'' (Some sample_zebra)),
      (''line2'', sample_line ''2020waspo'' ''qm1'' (Some sample_zebra))]"

text \<open>
  Tracking data with two team entries in the blue alliance, and a valid record in which
  the first blue station has every \<open>x\<close> missing and no \<open>y\<close> missing.
\<close>

definition short_zebra :: zebra where
  "short_zebra =
     \<lparr>alliances_blue = [sample_team ''frc1'', sample_team ''frc2''],
      alliances_red = [sample_team ''frc4'', sample_team ''frc5'', sample_team ''frc6''],
      zebra_times = [0, 1]\<rparr>"

definition xs_missing_zebra :: zebra where
  "xs_missing_zebra =
     \<lparr>alliances_blue =
        [\<lparr>team_key = Some ''frc1'', team_xs = Some [None, None], team_ys = Some [Some 3, Some 4]\<rparr>,
         sample_team ''frc2'', sample_team ''frc3''],
      alliances_red = [sample_team ''frc4'', sample_team ''frc5'', sample_team ''frc6''],
      zebra_times = [0, 1]\<rparr>"

section \<open>Properties of the path scan\<close>

lemma first_valid_None_iff:
  "first_valid f (enumerate k cs) = None \<longleftrightarrow> list_all (\<lambda>c. fst c = None \<or> snd c = None) cs"
proof (induction cs arbitrary: k)
  case Nil
  show ?case by simp
next
  case (Cons c cs)
  obtain a b where c: "c = (a, b)" by (cases c)
  show ?case using Cons.IH [of "Suc k"] by (cases a; cases b) (simp_all add: c)
qed

lemma first_valid_at:
  "j < length cs \<Longrightarrow> cs ! j = (Some x, Some y) \<Longrightarrow>
   (\<And>j'. j' < j \<Longrightarrow> fst (cs ! j') = None \<or> snd (cs ! j') = None) \<Longrightarrow>
   first_valid f (enumerate k cs) = Some (x, y, f (k + j))"
proof (induction cs arbitrary: k j)
  case Nil
  then show ?case by simp
next
  case (Cons c cs)
  show ?case
  proof (cases j)
    case 0
    with Cons.prems(2) show ?thesis by simp
  next
    case (Suc j0)
    have c0: "fst c = None \<or> snd c = None"
      using Cons.prems(3) [of 0] Suc by simp
    have rest: "first_valid f (enumerate (Suc k) cs) = Some (x, y, f (Suc k + j0))"
    proof (rule Cons.IH)
      show "j0 < length cs" using Cons.prems(1) Suc by simp
      show "cs ! j0 = (Some x, Some y)" using Cons.prems(2) Suc by simp
      fix j' assume "j' < j0"
      then show "fst (cs ! j') = None \<or> snd (cs ! j') = None"
        using Cons.prems(3) [of "Suc j'"] Suc by simp
    qed
    obtain a b where c: "c = (a, b)" by (cases c)
    from c0 rest show ?thesis unfolding c Suc by (cases a; cases b) simp_all
  qed
qed

lemma filter_enumerate:
  "map fst (filter (\<lambda>(t, c). P c) (enumerate k cs)) =
   filter (\<lambda>t. P (cs ! (t - k))) [k..<k + length cs]"
proof (induction cs arbitrary: k)
  case Nil
  show ?case by simp
next
  case (Cons c cs)
  have tl: "filter (\<lambda>t. P ((c # cs) ! (t - k))) [Suc k..<Suc k + length cs]
          = filter (\<lambda>t. P (cs ! (t - Suc k))) [Suc k..<Suc k + length cs]"
  proof (rule filter_cong)
    fix t assume "t \<in> set [Suc k..<Suc k + length cs]"
    then have "t - k = Suc (t - Suc k)" by auto
    then show "P ((c # cs) ! (t - k)) = P (cs ! (t - Suc k))" by simp
  qed simp
  have "[k..<k + length (c # cs)] = k # [Suc k..<Suc k + length cs]"
    by (simp add: upt_rec)
  then show ?case using Cons.IH [of "Suc k"] tl by simp
qed

text \<open>The list of line 56 to 59, by index.\<close>

lemma missing_coords_eq:
  "missing_coords xs ys =
   filter (\<lambda>t. xs ! t = None \<or> ys ! t = None) [0..<min (length xs) (length ys)]"
proof -
  have "missing_coords xs ys =
        filter (\<lambda>t. fst (zip xs ys ! (t - 0)) = None \<or> snd (zip xs ys ! (t - 0)) = None)
          [0..<0 + length (zip xs ys)]"
    unfolding missing_coords_def by (rule filter_enumerate)
  also have "\<dots> = filter (\<lambda>t. xs ! t = None \<or> ys ! t = None) [0..<min (length xs) (length ys)]"
    by (rule filter_cong) auto
  finally show ?thesis .
qed

text \<open>
  The index that the backward loop records for the last valid sample, at index \<open>i\<close>,
  is \<open>i + 1\<close>: the flipped arrays have that sample at \<open>t = len(xs) - 1 - i\<close>, and the
  loop records \<^verbatim>\<open>len(xs) - t\<close>.
\<close>

lemma first_valid_backward:
  assumes len: "length xs = length ys" and i: "i < length xs"
    and vx: "xs ! i = Some x" and vy: "ys ! i = Some y"
    and after: "\<And>j. i < j \<Longrightarrow> j < length xs \<Longrightarrow> xs ! j = None \<or> ys ! j = None"
  shows "first_valid (\<lambda>t. length xs - t) (enumerate 0 (zip (rev xs) (rev ys))) = Some (x, y, Suc i)"
proof -
  let ?cs = "zip (rev xs) (rev ys)"
  let ?j = "length xs - Suc i"
  have j: "?j < length ?cs" using len i by simp
  have at: "?cs ! ?j = (Some x, Some y)"
    using len i vx vy by (simp add: rev_nth)
  have before: "fst (?cs ! j') = None \<or> snd (?cs ! j') = None" if "j' < ?j" for j'
  proof -
    have "j' < length xs" using that by simp
    moreover have "i < length xs - Suc j'" using that by arith
    moreover have "length xs - Suc j' < length xs" using i by arith
    ultimately show ?thesis using after [of "length xs - Suc j'"] len by (simp add: rev_nth)
  qed
  have "first_valid (\<lambda>t. length xs - t) (enumerate 0 ?cs) = Some (x, y, length xs - (0 + ?j))"
    using j at before by (rule first_valid_at)
  moreover have "length xs - (0 + ?j) = Suc i" using i by arith
  ultimately show ?thesis by simp
qed

lemma first_valid_forward:
  assumes i: "i < length xs" "i < length ys"
    and vx: "xs ! i = Some x" and vy: "ys ! i = Some y"
    and before: "\<And>j. j < i \<Longrightarrow> xs ! j = None \<or> ys ! j = None"
  shows "first_valid (\<lambda>t. t) (enumerate 0 (zip xs ys)) = Some (x, y, i)"
proof -
  have "first_valid (\<lambda>t. t) (enumerate 0 (zip xs ys)) = Some (x, y, 0 + i)"
  proof (rule first_valid_at)
    show "i < length (zip xs ys)" using i by simp
    show "zip xs ys ! i = (Some x, Some y)" using i vx vy by simp
    fix j' assume "j' < i"
    then show "fst (zip xs ys ! j') = None \<or> snd (zip xs ys ! j') = None"
      using before [of j'] i by simp
  qed
  then show ?thesis by simp
qed

lemma not_all_missing:
  "i < length xs \<Longrightarrow> xs ! i \<noteq> None \<Longrightarrow> \<not> list_all (\<lambda>x. x = None) xs"
  by (auto simp: list_all_length)

lemma valid_forward:
  assumes "i < length xs" "i < length ys" "xs ! i \<noteq> None" "ys ! i \<noteq> None"
  shows "\<not> list_all (\<lambda>c. fst c = None \<or> snd c = None) (zip xs ys)"
  using assms by (auto simp: list_all_length)

lemma valid_backward:
  assumes "length xs = length ys" "i < length xs" "xs ! i \<noteq> None" "ys ! i \<noteq> None"
  shows "\<not> list_all (\<lambda>c. fst c = None \<or> snd c = None) (zip (rev xs) (rev ys))"
proof -
  have "length xs - Suc i < length (zip (rev xs) (rev ys))" using assms by simp
  moreover have "zip (rev xs) (rev ys) ! (length xs - Suc i) = (xs ! i, ys ! i)"
    using assms by (simp add: rev_nth)
  ultimately show ?thesis using assms(3,4) by (auto simp: list_all_length)
qed

text \<open>
  C1. The claim: for a station with a valid sample, the scan records the last valid
  sample with its 0-based index, so that the scenario \<open>xs = [null, null, 5.0, 6.0, null]\<close>,
  \<open>ys = [null, null, 1.0, 2.0, null]\<close> gives \<open>start = (5.0, 1.0, 2)\<close> and
  \<open>end = (6.0, 2.0, 3)\<close>. The code gives \<open>end = (6.0, 2.0, 4)\<close> there: the backward loop
  records \<^verbatim>\<open>len(xs) - t\<close>, one more than the index of the sample, where the forward
  loop records the index \<open>t\<close> itself.
\<close>

theorem scan_path_scenario:
  "scan_path [None, None, Some 5, Some 6, None] [None, None, Some 1, Some 2, None] =
     Inr \<lparr>st_start = Some (5, 1, 2), st_end = Some (6, 2, 4), st_n = 2,
          st_missing = Some [0, 1, 4]\<rparr>"
  by (simp add: scan_path_def missing_coords_def)

text \<open>
  The same on every path of equal-length rows: when the last valid sample is at index
  \<open>i\<close>, the index recorded in \<^verbatim>\<open>'end'\<close> is \<open>i + 1\<close>, and the one recorded in
  \<^verbatim>\<open>'start'\<close> is the index of the first valid sample.
\<close>

lemma scan_path_end_index:
  assumes len: "length xs = length ys" and i: "i < length xs"
    and vx: "xs ! i = Some x" and vy: "ys ! i = Some y"
    and after: "\<And>j. i < j \<Longrightarrow> j < length xs \<Longrightarrow> xs ! j = None \<or> ys ! j = None"
  shows "\<exists>r. scan_path xs ys = Inr r \<and> st_end r = Some (x, y, Suc i)"
proof -
  have guard: "\<not> (list_all (\<lambda>x. x = None) xs \<and> list_all (\<lambda>y. y = None) ys)"
    using not_all_missing [OF i] vx by simp
  have "first_valid (\<lambda>t. t) (enumerate 0 (zip xs ys)) \<noteq> None"
    using valid_forward [of i xs ys] len i vx vy by (simp add: first_valid_None_iff)
  then obtain s where s: "first_valid (\<lambda>t. t) (enumerate 0 (zip xs ys)) = Some s" by blast
  show ?thesis
    using guard s first_valid_backward [OF len i vx vy after] by (simp add: scan_path_def)
qed

lemma scan_path_start_index:
  assumes len: "length xs = length ys" and i: "i < length xs"
    and vx: "xs ! i = Some x" and vy: "ys ! i = Some y"
    and before: "\<And>j. j < i \<Longrightarrow> xs ! j = None \<or> ys ! j = None"
  shows "\<exists>r. scan_path xs ys = Inr r \<and> st_start r = Some (x, y, i)"
proof -
  have guard: "\<not> (list_all (\<lambda>x. x = None) xs \<and> list_all (\<lambda>y. y = None) ys)"
    using not_all_missing [OF i] vx by simp
  have "first_valid (\<lambda>t. length xs - t) (enumerate 0 (zip (rev xs) (rev ys))) \<noteq> None"
    using valid_backward [OF len i] vx vy by (simp add: first_valid_None_iff)
  then obtain e where
    e: "first_valid (\<lambda>t. length xs - t) (enumerate 0 (zip (rev xs) (rev ys))) = Some e"
    by blast
  have "first_valid (\<lambda>t. t) (enumerate 0 (zip xs ys)) = Some (x, y, i)"
    using i len vx vy before by (intro first_valid_forward) simp_all
  then show ?thesis using guard e by (simp add: scan_path_def)
qed

text \<open>
  C2. The claim: for every station, \<^verbatim>\<open>'missing'\<close> is the list of the indices at which
  \<open>x\<close> or \<open>y\<close> is missing and \<^verbatim>\<open>'n'\<close> is the path length minus the length of that list,
  also for a station whose samples are all missing. The guard of line 53 returns
  \<^verbatim>\<open>'missing': None\<close> for a station whose samples are all missing, not the list of all
  indices.
\<close>

theorem scan_path_all_missing_counterexample:
  "\<not> (\<exists>r. scan_path [None, None] [None, None] = Inr r \<and> st_missing r = Some [0, 1])"
  by (simp add: scan_path_def)

text \<open>
  C2, as amended. For a station of equal-length rows with a valid sample, the scan
  returns, \<^verbatim>\<open>'missing'\<close> is the list of the 0-based indices at which \<open>x\<close> or \<open>y\<close> is
  missing, and \<^verbatim>\<open>'n'\<close> is the path length minus the length of that list. For a station
  in which every \<open>x\<close> and every \<open>y\<close> is missing, the scan returns \<^verbatim>\<open>'n'\<close> equal to 0 and
  \<^verbatim>\<open>'missing'\<close> undefined (with \<^verbatim>\<open>'start'\<close> and \<^verbatim>\<open>'end'\<close> undefined).
\<close>

theorem scan_path_missing_count:
  "(length xs = length ys \<and> i < length xs \<and> xs ! i \<noteq> None \<and> ys ! i \<noteq> None \<longrightarrow>
      (\<exists>r. scan_path xs ys = Inr r \<and>
           st_missing r = Some (filter (\<lambda>t. xs ! t = None \<or> ys ! t = None) [0..<length xs]) \<and>
           st_n r = int (length xs) -
                    int (length (filter (\<lambda>t. xs ! t = None \<or> ys ! t = None) [0..<length xs])))) \<and>
   (list_all (\<lambda>x. x = None) xs \<and> list_all (\<lambda>y. y = None) ys \<longrightarrow>
      scan_path xs ys = Inr \<lparr>st_start = None, st_end = None, st_n = 0, st_missing = None\<rparr>)"
proof (intro conjI impI)
  assume h: "length xs = length ys \<and> i < length xs \<and> xs ! i \<noteq> None \<and> ys ! i \<noteq> None"
  then have len: "length xs = length ys" and i: "i < length xs"
    and vx: "xs ! i \<noteq> None" and vy: "ys ! i \<noteq> None" by simp_all
  have guard: "\<not> (list_all (\<lambda>x. x = None) xs \<and> list_all (\<lambda>y. y = None) ys)"
    using not_all_missing [OF i vx] by simp
  have "first_valid (\<lambda>t. t) (enumerate 0 (zip xs ys)) \<noteq> None"
    using valid_forward [of i xs ys] len i vx vy by (simp add: first_valid_None_iff)
  then obtain s where s: "first_valid (\<lambda>t. t) (enumerate 0 (zip xs ys)) = Some s" by blast
  have "first_valid (\<lambda>t. length xs - t) (enumerate 0 (zip (rev xs) (rev ys))) \<noteq> None"
    using valid_backward [OF len i vx vy] by (simp add: first_valid_None_iff)
  then obtain e where
    e: "first_valid (\<lambda>t. length xs - t) (enumerate 0 (zip (rev xs) (rev ys))) = Some e"
    by blast
  have m: "missing_coords xs ys = filter (\<lambda>t. xs ! t = None \<or> ys ! t = None) [0..<length xs]"
    using len by (simp add: missing_coords_eq)
  show "\<exists>r. scan_path xs ys = Inr r \<and>
           st_missing r = Some (filter (\<lambda>t. xs ! t = None \<or> ys ! t = None) [0..<length xs]) \<and>
           st_n r = int (length xs) -
                    int (length (filter (\<lambda>t. xs ! t = None \<or> ys ! t = None) [0..<length xs]))"
    using guard s e m by (simp add: scan_path_def)
next
  assume "list_all (\<lambda>x. x = None) xs \<and> list_all (\<lambda>y. y = None) ys"
  then show "scan_path xs ys = Inr \<lparr>st_start = None, st_end = None, st_n = 0, st_missing = None\<rparr>"
    by (simp add: scan_path_def)
qed

theorem scan_path_missing_count_witness:
  "(length [None, None, Some 5, Some 6, None :: coord] =
      length [None, None, Some 1, Some 2, None :: coord] \<and>
    (2::nat) < length [None, None, Some 5, Some 6, None :: coord] \<and>
    [None, None, Some 5, Some 6, None :: coord] ! 2 \<noteq> None \<and>
    [None, None, Some 1, Some 2, None :: coord] ! 2 \<noteq> None) \<and>
   (\<exists>r. scan_path [None, None, Some 5, Some 6, None] [None, None, Some 1, Some 2, None] = Inr r \<and>
        st_missing r = Some [0, 1, 4] \<and> st_n r = 2) \<and>
   (list_all (\<lambda>x. x = None) [None, None :: coord] \<and>
    list_all (\<lambda>y. y = None) [None, None :: coord]) \<and>
   scan_path [None, None] [None, None] =
     Inr \<lparr>st_start = None, st_end = None, st_n = 0, st_missing = None\<rparr>"
  using scan_path_missing_count
          [of "[None, None, Some 5, Some 6, None]" "[None, None, Some 1, Some 2, None]" 2]
    scan_path_missing_count [of "[None, None]" "[None, None]" 0]
  by (simp add: upt_rec eval_nat_numeral)

text \<open>
  C3. The claim: a station without a valid sample gets \<^verbatim>\<open>'start'\<close> and \<^verbatim>\<open>'end'\<close>
  undefined and the count 0, without a failure, also when \<open>xs\<close> is entirely missing and
  \<open>ys\<close> is not. The guard of line 53 asks that every \<open>x\<close> and every \<open>y\<close> is missing; with
  \<open>xs = [null, null]\<close> and \<open>ys = [1.0, 2.0]\<close> it does not hold, neither loop binds its
  variable, and the \<^verbatim>\<open>return\<close> raises \<^verbatim>\<open>UnboundLocalError\<close>.
\<close>

theorem scan_path_xs_missing_fails:
  "scan_path [None, None] [Some 1, Some 2] = Inl UnboundLocalError"
  by (simp add: scan_path_def)

section \<open>Properties of the match parser\<close>

subsection \<open>Failures of the constructor\<close>

lemma mapM_all_Inr:
  "(\<And>x. x \<in> set xs \<Longrightarrow> f x = Inr (g x)) \<Longrightarrow> mapM f xs = Inr (map g xs)"
  by (induction xs) simp_all

lemma mapM_Inl_elem:
  "mapM f xs = Inl e \<Longrightarrow> \<exists>x\<in>set xs. f x = Inl e"
  by (induction xs) (auto split: sum.splits)

lemma mapM_fails:
  "x \<in> set xs \<Longrightarrow> f x = Inl e \<Longrightarrow> \<exists>e'. mapM f xs = Inl e'"
  by (induction xs) (auto split: sum.splits)

lemma mapM_Inr_map:
  "mapM f xs = Inr ys \<Longrightarrow> map f xs = map Inr ys"
  by (induction xs arbitrary: ys) (auto split: sum.splits)

lemma team_getitem_key_error: "team_getitem_key t = Inl e \<Longrightarrow> e = KeyError"
  by (auto simp: team_getitem_key_def split: option.splits)

lemma team_getitem_axis_error: "team_getitem_axis t a = Inl e \<Longrightarrow> e = KeyError"
  by (auto simp: team_getitem_axis_def split: option.splits if_splits)

lemma mapM_keys_fail:
  "t \<in> set ts \<Longrightarrow> team_key t = None \<Longrightarrow> mapM team_getitem_key ts = Inl KeyError"
proof -
  assume a: "t \<in> set ts" "team_key t = None"
  then have "team_getitem_key t = Inl KeyError" by (simp add: team_getitem_key_def)
  with a(1) obtain e' where e: "mapM team_getitem_key ts = Inl e'" using mapM_fails by fastforce
  then obtain x where "team_getitem_key x = Inl e'" using mapM_Inl_elem by fastforce
  then have "e' = KeyError" by (rule team_getitem_key_error)
  with e show ?thesis by simp
qed

lemma path_axes_eq:
  "path_axes z = concat (map (\<lambda>team. [(team, ''xs''), (team, ''ys'')]) (alliances_blue z @ alliances_red z))"
  by (simp add: path_axes_def alliances_def)

lemma mapM_axes_fail:
  assumes "t \<in> set (alliances_blue z @ alliances_red z)" "team_xs t = None \<or> team_ys t = None"
  shows "mapM (\<lambda>(team, axis). team_getitem_axis team axis) (path_axes z) = Inl KeyError"
proof -
  let ?f = "\<lambda>(team, axis). team_getitem_axis team axis"
  have "team_getitem_axis t ''xs'' = Inl KeyError \<or> team_getitem_axis t ''ys'' = Inl KeyError"
    using assms(2) by (auto simp: team_getitem_axis_def)
  then obtain a where a: "a = ''xs'' \<or> a = ''ys''" "team_getitem_axis t a = Inl KeyError"
    by blast
  have "(t, a) \<in> set (path_axes z)" using assms(1) a(1) unfolding path_axes_eq by auto
  moreover have "?f (t, a) = Inl KeyError" using a(2) by simp
  ultimately obtain e' where e: "mapM ?f (path_axes z) = Inl e'"
    using mapM_fails [of "(t, a)" "path_axes z" ?f KeyError] by blast
  then obtain x where "?f x = Inl e'" using mapM_Inl_elem by fastforce
  then have "e' = KeyError" by (cases x) (auto dest: team_getitem_axis_error)
  with e show ?thesis by simp
qed

lemma mapM_error_KeyError_keys: "mapM team_getitem_key ts = Inl e \<Longrightarrow> e = KeyError"
  using mapM_Inl_elem team_getitem_key_error by fastforce

lemma Match_of_dict_incomplete:
  assumes z: "json_zebra d = Some z"
    and inc: "\<not> list_all complete_team (alliances_blue z @ alliances_red z)"
  shows "Match_of_dict d = Inl KeyError"
proof -
  from inc obtain t where t: "t \<in> set (alliances_blue z @ alliances_red z)" "\<not> complete_team t"
    by (auto simp: list_all_iff)
  show ?thesis
  proof (cases "mapM team_getitem_key (alliances_blue z)")
    case (Inl e)
    then have "e = KeyError" by (rule mapM_error_KeyError_keys)
    with Inl z show ?thesis by (simp add: Match_of_dict_def alliances_def)
  next
    case blue: (Inr bk)
    show ?thesis
    proof (cases "mapM team_getitem_key (alliances_red z)")
      case (Inl e)
      then have "e = KeyError" by (rule mapM_error_KeyError_keys)
      with Inl blue z show ?thesis by (simp add: Match_of_dict_def alliances_def)
    next
      case red: (Inr rk)
      have "team_key t \<noteq> None"
      proof
        assume n: "team_key t = None"
        from t(1) have "t \<in> set (alliances_blue z) \<or> t \<in> set (alliances_red z)" by simp
        then show False using mapM_keys_fail [OF _ n] blue red by auto
      qed
      then have "team_xs t = None \<or> team_ys t = None" using t(2) by (simp add: complete_team_def)
      from mapM_axes_fail [OF t(1) this] blue red z show ?thesis
        by (simp add: Match_of_dict_def alliances_def)
    qed
  qed
qed

lemma teams_loop_too_many:
  "keys \<noteq> [] \<Longrightarrow> 6 < k + length keys \<Longrightarrow> \<exists>e. teams_loop ps (enumerate k keys) tms = Inl e"
proof (induction keys arbitrary: k tms)
  case Nil
  then show ?case by simp
next
  case (Cons tm rest)
  show ?case
  proof (cases "rest = []")
    case True
    with Cons.prems have "6 \<le> k" by simp
    then have "list_getitem stations (int k) = Inl IndexError"
      by (simp add: list_getitem_def stations_def)
    then show ?thesis by (simp split: sum.splits)
  next
    case False
    have "\<exists>e. teams_loop ps (enumerate (Suc k) rest) tms' = Inl e" for tms'
      using Cons.IH [OF False, of "Suc k" tms'] Cons.prems by simp
    then show ?thesis by (simp split: sum.splits)
  qed
qed

lemma mapM_Inr_length: "mapM f xs = Inr ys \<Longrightarrow> length ys = length xs"
  by (induction xs arbitrary: ys) (auto split: sum.splits)

lemma Match_of_dict_too_many:
  assumes z: "json_zebra d = Some z"
    and many: "6 < length (alliances_blue z) + length (alliances_red z)"
  shows "\<exists>e. Match_of_dict d = Inl e"
proof (cases "Match_of_dict d")
  case (Inl e)
  then show ?thesis by blast
next
  case (Inr m)
  from Inr z obtain bk rk rows ps tms where
    bk: "mapM team_getitem_key (alliances_blue z) = Inr bk" and
    rk: "mapM team_getitem_key (alliances_red z) = Inr rk" and
    tl: "teams_loop ps (enumerate 0 (bk @ rk)) Map.empty = Inr tms"
    by (auto simp: Match_of_dict_def alliances_def split: sum.splits)
  have "length (bk @ rk) = length (alliances_blue z) + length (alliances_red z)"
    using mapM_Inr_length [OF bk] mapM_Inr_length [OF rk] by simp
  with many have "bk @ rk \<noteq> []" "6 < 0 + length (bk @ rk)" by auto
  from teams_loop_too_many [OF this, of ps Map.empty] tl show ?thesis by auto
qed

subsection \<open>Records that the constructor accepts\<close>

lemma no_valid_iff:
  "list_all (\<lambda>c. fst c = None \<or> snd c = None) cs \<longleftrightarrow> \<not> list_ex (\<lambda>c. fst c \<noteq> None \<and> snd c \<noteq> None) cs"
  by (induction cs) auto

lemma scan_path_scannable:
  assumes len: "length xs = length ys" and ok: "all_missing xs ys \<or> has_valid xs ys"
  shows "\<exists>r. scan_path xs ys = Inr r"
proof (cases "all_missing xs ys")
  case True
  then show ?thesis by (simp add: scan_path_def all_missing_def)
next
  case False
  with ok have hv: "has_valid xs ys" by simp
  then have f: "first_valid (\<lambda>t. t) (enumerate 0 (zip xs ys)) \<noteq> None"
    by (simp add: first_valid_None_iff no_valid_iff has_valid_def)
  have "zip (rev xs) (rev ys) = rev (zip xs ys)" using len by (simp add: zip_rev)
  then have "list_ex (\<lambda>c. fst c \<noteq> None \<and> snd c \<noteq> None) (zip (rev xs) (rev ys))"
    using hv by (simp add: has_valid_def list_ex_iff)
  then have b: "first_valid (\<lambda>t. length xs - t) (enumerate 0 (zip (rev xs) (rev ys))) \<noteq> None"
    by (simp add: first_valid_None_iff no_valid_iff)
  from f b False show ?thesis by (auto simp: scan_path_def all_missing_def)
qed

lemma scan_path_not_scannable:
  assumes "\<not> all_missing xs ys" "\<not> has_valid xs ys"
  shows "scan_path xs ys = Inl UnboundLocalError"
proof -
  have "first_valid (\<lambda>t. t) (enumerate 0 (zip xs ys)) = None"
    using assms(2) by (simp add: first_valid_None_iff no_valid_iff has_valid_def)
  then show ?thesis using assms(1) by (simp add: scan_path_def all_missing_def)
qed

lemma list_getitem_nat: "n < length xs \<Longrightarrow> list_getitem xs (int n) = Inr (xs ! n)"
  by (simp add: list_getitem_def)

lemma teams_loop_ok:
  assumes "k + length keys \<le> 6"
    and "\<And>j. j < length keys \<Longrightarrow> 2 * (k + j) + 1 < length ps \<and>
           (\<exists>r. scan_path (ps ! (2 * (k + j))) (ps ! (2 * (k + j) + 1)) = Inr r)"
  shows "\<exists>tms'. teams_loop ps (enumerate k keys) tms = Inr tms'"
  using assms
proof (induction keys arbitrary: k tms)
  case Nil
  show ?case by simp
next
  case (Cons tm rest)
  from Cons.prems(2) [of 0] obtain r where
    b: "2 * k + 1 < length ps" and r: "scan_path (ps ! (2 * k)) (ps ! (2 * k + 1)) = Inr r"
    by auto
  have gx: "list_getitem ps (int (2 * k)) = Inr (ps ! (2 * k))"
    using b by (intro list_getitem_nat) simp
  have gy: "list_getitem ps (int (2 * k + 1)) = Inr (ps ! (2 * k + 1))"
    using b by (intro list_getitem_nat) simp
  have "k < 6" using Cons.prems(1) by simp
  then have st: "list_getitem stations (int k) = Inr (stations ! k)"
    by (intro list_getitem_nat) (simp add: stations_def)
  have rest: "\<exists>tms'. teams_loop ps (enumerate (Suc k) rest) tms0 = Inr tms'" for tms0
  proof (rule Cons.IH)
    show "Suc k + length rest \<le> 6" using Cons.prems(1) by simp
    fix j assume "j < length rest"
    then show "2 * (Suc k + j) + 1 < length ps \<and>
           (\<exists>r. scan_path (ps ! (2 * (Suc k + j))) (ps ! (2 * (Suc k + j) + 1)) = Inr r)"
      using Cons.prems(2) [of "Suc j"] by simp
  qed
  show ?case using rest by (simp only: enumerate_simps teams_loop.simps gx gy r st sum.case)
qed

lemma team_rows_complete:
  "complete_team t \<Longrightarrow> \<exists>p q. team_xs t = Some p \<and> team_ys t = Some q \<and> team_rows t = [p, q]"
  by (auto simp: complete_team_def team_rows_def)

lemma rows_nth:
  "list_all complete_team ts \<Longrightarrow> j < length ts \<Longrightarrow>
   length (concat (map team_rows ts)) = 2 * length ts \<and>
   team_rows (ts ! j) = [concat (map team_rows ts) ! (2 * j), concat (map team_rows ts) ! (2 * j + 1)]"
proof (induction ts arbitrary: j)
  case Nil
  then show ?case by simp
next
  case (Cons t ts)
  from Cons.prems(1) obtain p q where pq: "team_rows t = [p, q]"
    using team_rows_complete [of t] by auto
  show ?case
  proof (cases j)
    case 0
    show ?thesis
    proof (cases ts)
      case Nil
      then show ?thesis using pq 0 by simp
    next
      case (Cons a list)
      then have "0 < length ts" by simp
      from Cons.IH [OF _ this] Cons.prems(1) pq 0 show ?thesis by simp
    qed
  next
    case (Suc j0)
    then have "j0 < length ts" using Cons.prems(2) by simp
    from Cons.IH [OF _ this] Cons.prems(1) pq Suc show ?thesis by simp
  qed
qed

lemma rows_length: "list_all complete_team ts \<Longrightarrow> length (concat (map team_rows ts)) = 2 * length ts"
  by (induction ts) (auto dest: team_rows_complete)

lemma mapM_axes_complete:
  "list_all complete_team ts \<Longrightarrow>
   mapM (\<lambda>(team, axis). team_getitem_axis team axis)
     (concat (map (\<lambda>team. [(team, ''xs''), (team, ''ys'')]) ts)) = Inr (concat (map team_rows ts))"
proof (induction ts)
  case Nil
  show ?case by simp
next
  case (Cons t ts)
  from Cons.prems obtain p q where "team_xs t = Some p" "team_ys t = Some q" "team_rows t = [p, q]"
    using team_rows_complete [of t] by auto
  then show ?case using Cons by (simp add: team_getitem_axis_def)
qed

lemma mapM_keys_complete:
  "list_all complete_team ts \<Longrightarrow> mapM team_getitem_key ts = Inr (map team_name ts)"
  by (rule mapM_all_Inr) (auto simp: list_all_iff complete_team_def team_getitem_key_def team_name_def)

lemma np_array_ok:
  "list_all (\<lambda>r. length r = n) rows \<Longrightarrow> np_array rows = Inr rows"
  by (cases rows) (auto simp: np_array_def list_all_iff)

lemma Match_of_dict_ok:
  assumes z: "json_zebra d = Some z"
    and comp: "list_all complete_team (alliances_blue z @ alliances_red z)"
    and rect: "list_all (\<lambda>r. length r = n) (concat (map team_rows (alliances_blue z @ alliances_red z)))"
    and scan: "list_all scannable_team (alliances_blue z @ alliances_red z)"
    and six: "length (alliances_blue z) + length (alliances_red z) \<le> 6"
  shows "\<exists>tms. Match_of_dict d =
           Inr \<lparr>event = json_event d, match = json_match d,
                blue = map team_name (alliances_blue z), red = map team_name (alliances_red z),
                paths = concat (map team_rows (alliances_blue z @ alliances_red z)),
                times = zebra_times z, score = json_score d, teams = tms\<rparr>"
proof -
  let ?ts = "alliances_blue z @ alliances_red z"
  let ?ps = "concat (map team_rows ?ts)"
  let ?keys = "map team_name (alliances_blue z) @ map team_name (alliances_red z)"
  have cb: "list_all complete_team (alliances_blue z)" and cr: "list_all complete_team (alliances_red z)"
    using comp by simp_all
  have rows: "mapM (\<lambda>(team, axis). team_getitem_axis team axis) (path_axes z) = Inr ?ps"
    unfolding path_axes_eq using comp by (rule mapM_axes_complete)
  have arr: "np_array ?ps = Inr ?ps" using rect by (rule np_array_ok)
  have "\<exists>tms'. teams_loop ?ps (enumerate 0 ?keys) Map.empty = Inr tms'"
  proof (rule teams_loop_ok)
    show "0 + length ?keys \<le> 6" using six by simp
    fix j assume "j < length ?keys"
    then have j: "j < length ?ts" by simp
    from rows_nth [OF comp j] have len: "length ?ps = 2 * length ?ts"
      and tr: "team_rows (?ts ! j) = [?ps ! (2 * j), ?ps ! (2 * j + 1)]" by simp_all
    have "scannable_team (?ts ! j)" using scan j by (simp add: list_all_length)
    then have ok: "all_missing (?ps ! (2 * j)) (?ps ! (2 * j + 1)) \<or> has_valid (?ps ! (2 * j)) (?ps ! (2 * j + 1))"
      using tr by (simp add: scannable_team_def)
    have "2 * j + 1 < length ?ps" using len j by simp
    moreover from this have "length (?ps ! (2 * j)) = n" "length (?ps ! (2 * j + 1)) = n"
      using rect by (simp_all add: list_all_length)
    then have "\<exists>r. scan_path (?ps ! (2 * j)) (?ps ! (2 * j + 1)) = Inr r"
      using ok by (intro scan_path_scannable) simp_all
    ultimately show "2 * (0 + j) + 1 < length ?ps \<and>
           (\<exists>r. scan_path (?ps ! (2 * (0 + j))) (?ps ! (2 * (0 + j) + 1)) = Inr r)" by simp
  qed
  then obtain tms where "teams_loop ?ps (enumerate 0 ?keys) Map.empty = Inr tms" by blast
  then show ?thesis
    using z rows arr mapM_keys_complete [OF cb] mapM_keys_complete [OF cr]
    by (simp add: Match_of_dict_def alliances_def)
qed

text \<open>
  With more than six complete teams whose stations the scan accepts, the loop reaches the
  seventh team and fails at its station name; the errors of the constructor on a record
  with tracking data are the four below.
\<close>

lemma teams_loop_seventh:
  assumes "keys \<noteq> []" "6 < k + length keys" "k \<le> 6"
    and "\<And>j. j < length keys \<Longrightarrow> 2 * (k + j) + 1 < length ps \<and>
           (\<exists>r. scan_path (ps ! (2 * (k + j))) (ps ! (2 * (k + j) + 1)) = Inr r)"
  shows "teams_loop ps (enumerate k keys) tms = Inl IndexError"
  using assms
proof (induction keys arbitrary: k tms)
  case Nil
  then show ?case by simp
next
  case (Cons tm rest)
  from Cons.prems(4) [of 0] obtain r where
    b: "2 * k + 1 < length ps" and r: "scan_path (ps ! (2 * k)) (ps ! (2 * k + 1)) = Inr r"
    by auto
  have gx: "list_getitem ps (int (2 * k)) = Inr (ps ! (2 * k))"
    using b by (intro list_getitem_nat) simp
  have gy: "list_getitem ps (int (2 * k + 1)) = Inr (ps ! (2 * k + 1))"
    using b by (intro list_getitem_nat) simp
  show ?case
  proof (cases "k = 6")
    case True
    then have st: "list_getitem stations (int k) = Inl IndexError"
      by (simp add: list_getitem_def stations_def)
    show ?thesis by (simp only: enumerate_simps teams_loop.simps gx gy r st sum.case)
  next
    case False
    with Cons.prems(3) have k: "k < 6" by simp
    then have st: "list_getitem stations (int k) = Inr (stations ! k)"
      by (intro list_getitem_nat) (simp add: stations_def)
    have ne: "rest \<noteq> []" using Cons.prems(2) k by auto
    have rest: "teams_loop ps (enumerate (Suc k) rest) tms0 = Inl IndexError" for tms0
    proof (rule Cons.IH [OF ne])
      show "6 < Suc k + length rest" using Cons.prems(2) by simp
      show "Suc k \<le> 6" using k by simp
      fix j assume "j < length rest"
      then show "2 * (Suc k + j) + 1 < length ps \<and>
           (\<exists>r. scan_path (ps ! (2 * (Suc k + j))) (ps ! (2 * (Suc k + j) + 1)) = Inr r)"
        using Cons.prems(4) [of "Suc j"] by simp
    qed
    show ?thesis using rest by (simp only: enumerate_simps teams_loop.simps gx gy r st sum.case)
  qed
qed

lemma station_scans:
  assumes comp: "list_all complete_team ts"
    and rect: "list_all (\<lambda>r. length r = n) (concat (map team_rows ts))"
    and scan: "list_all scannable_team ts"
    and j: "j < length ts"
  shows "2 * j + 1 < length (concat (map team_rows ts)) \<and>
         (\<exists>r. scan_path (concat (map team_rows ts) ! (2 * j)) (concat (map team_rows ts) ! (2 * j + 1)) = Inr r)"
proof -
  let ?ps = "concat (map team_rows ts)"
  from rows_nth [OF comp j] have len: "length ?ps = 2 * length ts"
    and tr: "team_rows (ts ! j) = [?ps ! (2 * j), ?ps ! (2 * j + 1)]" by simp_all
  have "scannable_team (ts ! j)" using scan j by (simp add: list_all_length)
  then have ok: "all_missing (?ps ! (2 * j)) (?ps ! (2 * j + 1)) \<or> has_valid (?ps ! (2 * j)) (?ps ! (2 * j + 1))"
    using tr by (simp add: scannable_team_def)
  have b: "2 * j + 1 < length ?ps" using len j by simp
  then have "length (?ps ! (2 * j)) = n" "length (?ps ! (2 * j + 1)) = n"
    using rect by (simp_all add: list_all_length)
  then have "\<exists>r. scan_path (?ps ! (2 * j)) (?ps ! (2 * j + 1)) = Inr r"
    using ok by (intro scan_path_scannable) simp_all
  with b show ?thesis by simp
qed

lemma Match_of_dict_seventh:
  assumes z: "json_zebra d = Some z"
    and comp: "list_all complete_team (alliances_blue z @ alliances_red z)"
    and rect: "list_all (\<lambda>r. length r = n) (concat (map team_rows (alliances_blue z @ alliances_red z)))"
    and scan: "list_all scannable_team (alliances_blue z @ alliances_red z)"
    and many: "6 < length (alliances_blue z) + length (alliances_red z)"
  shows "Match_of_dict d = Inl IndexError"
proof -
  let ?ts = "alliances_blue z @ alliances_red z"
  let ?ps = "concat (map team_rows ?ts)"
  let ?keys = "map team_name (alliances_blue z) @ map team_name (alliances_red z)"
  have cb: "list_all complete_team (alliances_blue z)" and cr: "list_all complete_team (alliances_red z)"
    using comp by simp_all
  have rows: "mapM (\<lambda>(team, axis). team_getitem_axis team axis) (path_axes z) = Inr ?ps"
    unfolding path_axes_eq using comp by (rule mapM_axes_complete)
  have arr: "np_array ?ps = Inr ?ps" using rect by (rule np_array_ok)
  have "teams_loop ?ps (enumerate 0 ?keys) Map.empty = Inl IndexError"
  proof (rule teams_loop_seventh)
    show "?keys \<noteq> []" using many by auto
    show "6 < 0 + length ?keys" using many by simp
    show "(0::nat) \<le> 6" by simp
    fix j assume "j < length ?keys"
    then have j: "j < length ?ts" by simp
    from station_scans [OF comp rect scan j]
    show "2 * (0 + j) + 1 < length ?ps \<and>
           (\<exists>r. scan_path (?ps ! (2 * (0 + j))) (?ps ! (2 * (0 + j) + 1)) = Inr r)" by simp
  qed
  then show ?thesis
    using z rows arr mapM_keys_complete [OF cb] mapM_keys_complete [OF cr]
    by (simp add: Match_of_dict_def alliances_def)
qed

lemma scan_path_error: "scan_path xs ys = Inl e \<Longrightarrow> e = UnboundLocalError"
  by (auto simp: scan_path_def split: if_splits option.splits)

lemma list_getitem_error: "list_getitem xs i = Inl e \<Longrightarrow> e = IndexError"
  by (auto simp: list_getitem_def split: if_splits)

lemma teams_loop_error:
  "teams_loop ps ks tms = Inl e \<Longrightarrow> e = IndexError \<or> e = UnboundLocalError"
proof (induction ks arbitrary: tms)
  case Nil
  then show ?case by simp
next
  case (Cons k ks)
  obtain idx tm where k: "k = (idx, tm)" by (cases k)
  show ?case
  proof (cases "list_getitem ps (int (2 * idx))")
    case (Inl e1)
    with Cons.prems k show ?thesis by (auto dest: list_getitem_error)
  next
    case gx: (Inr xs)
    show ?thesis
    proof (cases "list_getitem ps (int (2 * idx + 1))")
      case (Inl e1)
      with Cons.prems k gx show ?thesis by (auto dest: list_getitem_error)
    next
      case gy: (Inr ys)
      show ?thesis
      proof (cases "scan_path xs ys")
        case (Inl e1)
        with Cons.prems k gx gy show ?thesis by (auto dest: scan_path_error)
      next
        case sc: (Inr r)
        show ?thesis
        proof (cases "list_getitem stations (int idx)")
          case (Inl e1)
          with Cons.prems k gx gy sc show ?thesis by (auto dest: list_getitem_error)
        next
          case st: (Inr s)
          from Cons.prems have "\<exists>tms'. teams_loop ps ks tms' = Inl e"
            unfolding k by (simp only: teams_loop.simps gx gy sc st sum.case) blast
          then show ?thesis using Cons.IH by blast
        qed
      qed
    qed
  qed
qed

lemma np_array_error: "np_array rows = Inl e \<Longrightarrow> e = ValueError"
  by (auto simp: np_array_def split: if_splits)

lemma mapM_axes_error:
  "mapM (\<lambda>(team, axis). team_getitem_axis team axis) xs = Inl e \<Longrightarrow> e = KeyError"
proof -
  assume "mapM (\<lambda>(team, axis). team_getitem_axis team axis) xs = Inl e"
  then obtain x where "(\<lambda>(team, axis). team_getitem_axis team axis) x = Inl e"
    using mapM_Inl_elem by fastforce
  then show ?thesis by (cases x) (auto dest: team_getitem_axis_error)
qed

lemma Match_of_dict_error:
  assumes z: "json_zebra d = Some z" and e: "Match_of_dict d = Inl e"
  shows "e = KeyError \<or> e = ValueError \<or> e = UnboundLocalError \<or> e = IndexError"
  using e z
  by (auto simp: Match_of_dict_def split: sum.splits
      dest: mapM_error_KeyError_keys mapM_axes_error np_array_error teams_loop_error)

lemmas sample_defs = sample_line_def sample_zebra_def sample_team_def short_zebra_def xs_missing_zebra_def

lemmas match_defs = Match_init_def Match_of_dict_def alliances_def team_getitem_key_def
  team_getitem_axis_def path_axes_def np_array_def list_getitem_def stations_def scan_path_def
  missing_coords_def

text \<open>
  C8. The claim: the parser fails whenever \<^verbatim>\<open>alliances.blue\<close> or \<^verbatim>\<open>alliances.red\<close> does
  not hold exactly 3 entries, or a team entry lacks \<^verbatim>\<open>xs\<close>, \<^verbatim>\<open>ys\<close> or \<^verbatim>\<open>team_key\<close>.
  The constructor never compares the length of an alliance list with 3: the record with
  two complete blue entries and three complete red entries is parsed.
\<close>

theorem Match_init_short_alliance_counterexample:
  "length (alliances_blue short_zebra) = 2 \<and>
   (\<exists>m. Match_init (map_of scenario_table)
          (Dict (sample_line ''2020wasno'' ''qm1'' (Some short_zebra))) = Inr m)"
  by (simp add: sample_defs match_defs)

text \<open>
  C8, as amended. On a record with tracking data, the parser fails with \<^verbatim>\<open>KeyError\<close>
  whenever a team entry lacks \<^verbatim>\<open>team_key\<close>, \<^verbatim>\<open>xs\<close> or \<^verbatim>\<open>ys\<close>. It fails, with
  \<^verbatim>\<open>KeyError\<close>, \<^verbatim>\<open>ValueError\<close>, \<^verbatim>\<open>UnboundLocalError\<close> or \<^verbatim>\<open>IndexError\<close>, whenever the two
  alliance lists hold more than 6 entries together; the error is \<^verbatim>\<open>IndexError\<close>, raised at
  the station name of the seventh team, when moreover every entry is complete, all rows
  have one length and the scan accepts every station. The parser does not ask for exactly
  3 entries in each list: when the lists hold at most 6 complete entries together, all
  rows have one length and the scan accepts every station, the record is parsed.
\<close>

theorem Match_init_malformed:
  "json_zebra d = Some z \<Longrightarrow>
   (\<not> list_all complete_team (alliances_blue z @ alliances_red z) \<longrightarrow>
      Match_init json_loads (Dict d) = Inl KeyError) \<and>
   (6 < length (alliances_blue z) + length (alliances_red z) \<longrightarrow>
      (\<exists>e. Match_init json_loads (Dict d) = Inl e \<and>
           (e = KeyError \<or> e = ValueError \<or> e = UnboundLocalError \<or> e = IndexError))) \<and>
   (6 < length (alliances_blue z) + length (alliances_red z) \<and>
    list_all complete_team (alliances_blue z @ alliances_red z) \<and>
    list_all scannable_team (alliances_blue z @ alliances_red z) \<and>
    list_all (\<lambda>r. length r = n)
      (concat (map team_rows (alliances_blue z @ alliances_red z))) \<longrightarrow>
      Match_init json_loads (Dict d) = Inl IndexError) \<and>
   (list_all complete_team (alliances_blue z @ alliances_red z) \<and>
    list_all scannable_team (alliances_blue z @ alliances_red z) \<and>
    list_all (\<lambda>r. length r = n)
      (concat (map team_rows (alliances_blue z @ alliances_red z))) \<and>
    length (alliances_blue z) + length (alliances_red z) \<le> 6 \<longrightarrow>
      (\<exists>m. Match_init json_loads (Dict d) = Inr m))"
proof -
  assume z: "json_zebra d = Some z"
  have a: "Match_of_dict d = Inl KeyError"
    if "\<not> list_all complete_team (alliances_blue z @ alliances_red z)"
    using Match_of_dict_incomplete [OF z that] .
  have b: "\<exists>e. Match_of_dict d = Inl e \<and>
           (e = KeyError \<or> e = ValueError \<or> e = UnboundLocalError \<or> e = IndexError)"
    if "6 < length (alliances_blue z) + length (alliances_red z)"
  proof -
    from Match_of_dict_too_many [OF z that] obtain e where e: "Match_of_dict d = Inl e" by blast
    from Match_of_dict_error [OF z e] e show ?thesis by blast
  qed
  have c: "Match_of_dict d = Inl IndexError"
    if "6 < length (alliances_blue z) + length (alliances_red z)"
      "list_all complete_team (alliances_blue z @ alliances_red z)"
      "list_all scannable_team (alliances_blue z @ alliances_red z)"
      "list_all (\<lambda>r. length r = n) (concat (map team_rows (alliances_blue z @ alliances_red z)))"
    using Match_of_dict_seventh [OF z that(2) that(4) that(3) that(1)] .
  have d: "\<exists>m. Match_of_dict d = Inr m"
    if "list_all complete_team (alliances_blue z @ alliances_red z)"
      "list_all scannable_team (alliances_blue z @ alliances_red z)"
      "list_all (\<lambda>r. length r = n) (concat (map team_rows (alliances_blue z @ alliances_red z)))"
      "length (alliances_blue z) + length (alliances_red z) \<le> 6"
    using Match_of_dict_ok [OF z that(1) that(3) that(2) that(4)] by blast
  show ?thesis using a b c d by (simp add: Match_init_def)
qed

text \<open>
  C8, witness: a blue entry without \<^verbatim>\<open>xs\<close>, which gives \<^verbatim>\<open>KeyError\<close>; four blue and three
  red entries, which give \<^verbatim>\<open>IndexError\<close>; two blue and three red entries, which are
  parsed.
\<close>

theorem Match_init_malformed_witness:
  "Match_init (map_of scenario_table)
     (Dict (sample_line ''2020wasno'' ''qm1''
        (Some (sample_zebra\<lparr>alliances_blue :=
           [\<lparr>team_key = Some ''frc1'', team_xs = None, team_ys = Some [Some 3, Some 4]\<rparr>,
            sample_team ''frc2'', sample_team ''frc3'']\<rparr>)))) = Inl KeyError \<and>
   Match_init (map_of scenario_table)
     (Dict (sample_line ''2020wasno'' ''qm1''
        (Some (sample_zebra\<lparr>alliances_blue :=
           [sample_team ''frc0'', sample_team ''frc1'', sample_team ''frc2'', sample_team ''frc3'']\<rparr>))))
     = Inl IndexError \<and>
   (\<exists>m. Match_init (map_of scenario_table)
          (Dict (sample_line ''2020wasno'' ''qm1'' (Some short_zebra))) = Inr m)"
proof -
  let ?z1 = "sample_zebra\<lparr>alliances_blue :=
           [\<lparr>team_key = Some ''frc1'', team_xs = None, team_ys = Some [Some 3, Some 4]\<rparr>,
            sample_team ''frc2'', sample_team ''frc3'']\<rparr>"
  let ?z2 = "sample_zebra\<lparr>alliances_blue :=
           [sample_team ''frc0'', sample_team ''frc1'', sample_team ''frc2'', sample_team ''frc3'']\<rparr>"
  have a: "\<not> list_all complete_team (alliances_blue ?z1 @ alliances_red ?z1)"
    by (simp add: complete_team_def)
  have b: "6 < length (alliances_blue ?z2) + length (alliances_red ?z2) \<and>
    list_all complete_team (alliances_blue ?z2 @ alliances_red ?z2) \<and>
    list_all scannable_team (alliances_blue ?z2 @ alliances_red ?z2) \<and>
    list_all (\<lambda>r. length r = 2)
      (concat (map team_rows (alliances_blue ?z2 @ alliances_red ?z2)))"
    by (simp add: sample_zebra_def sample_team_def complete_team_def scannable_team_def team_rows_def
        all_missing_def has_valid_def)
  have c: "list_all complete_team (alliances_blue short_zebra @ alliances_red short_zebra) \<and>
    list_all scannable_team (alliances_blue short_zebra @ alliances_red short_zebra) \<and>
    list_all (\<lambda>r. length r = 2)
      (concat (map team_rows (alliances_blue short_zebra @ alliances_red short_zebra))) \<and>
    length (alliances_blue short_zebra) + length (alliances_red short_zebra) \<le> 6"
    by (simp add: short_zebra_def sample_team_def complete_team_def scannable_team_def team_rows_def
        all_missing_def has_valid_def)
  have z1: "json_zebra (sample_line ''2020wasno'' ''qm1'' (Some ?z1)) = Some ?z1"
    and z2: "json_zebra (sample_line ''2020wasno'' ''qm1'' (Some ?z2)) = Some ?z2"
    and z3: "json_zebra (sample_line ''2020wasno'' ''qm1'' (Some short_zebra)) = Some short_zebra"
    by (simp_all add: sample_line_def)
  from Match_init_malformed [OF z1, of "map_of scenario_table" 2] a
  have r1: "Match_init (map_of scenario_table) (Dict (sample_line ''2020wasno'' ''qm1'' (Some ?z1))) = Inl KeyError"
    by (elim conjE) (erule mp)
  from Match_init_malformed [OF z2, of "map_of scenario_table" 2] b
  have r2: "Match_init (map_of scenario_table) (Dict (sample_line ''2020wasno'' ''qm1'' (Some ?z2))) = Inl IndexError"
    by (elim conjE) (erule mp, intro conjI)
  from Match_init_malformed [OF z3, of "map_of scenario_table" 2] c
  have r3: "\<exists>m. Match_init (map_of scenario_table) (Dict (sample_line ''2020wasno'' ''qm1'' (Some short_zebra))) = Inr m"
    by (elim conjE) (erule mp, intro conjI)
  from r1 r2 r3 show ?thesis by (intro conjI)
qed

text \<open>
  C9. The claim: for every valid raw match record (each alliance list with exactly 3 team
  entries, rows of equal length) the parser produces the 12 paths in the order blue
  before red, team by team, \<open>xs\<close> before \<open>ys\<close>, and the two team lists. The record
  below is valid, and the parser raises \<^verbatim>\<open>UnboundLocalError\<close> on it, in the scan of the
  station \<^verbatim>\<open>blue1\<close>, whose \<open>x\<close> are all missing and whose \<open>y\<close> are present: no paths are
  produced.
\<close>

theorem Match_init_xs_missing_station:
  "valid_record (sample_line ''2020wasno'' ''qm1'' (Some xs_missing_zebra)) \<and>
   Match_init json_loads (Dict (sample_line ''2020wasno'' ''qm1'' (Some xs_missing_zebra))) =
     Inl UnboundLocalError"
  by (simp add: valid_record_def complete_team_def team_rows_def sample_defs match_defs)

text \<open>
  On every valid record in which the scan accepts each station (the station is entirely
  missing or has a valid sample) the parser returns, and the paths and the team lists are
  the ones of the claim.
\<close>

lemma Match_init_valid_record:
  assumes v: "valid_record d" and z: "json_zebra d = Some z"
    and scan: "list_all scannable_team (alliances_blue z @ alliances_red z)"
  shows "\<exists>m. Match_init json_loads (Dict d) = Inr m \<and>
           paths m = concat (map team_rows (alliances_blue z @ alliances_red z)) \<and>
           length (paths m) = 12 \<and>
           blue m = map team_name (alliances_blue z) \<and>
           red m = map team_name (alliances_red z)"
proof -
  from v z have l: "length (alliances_blue z) = 3" "length (alliances_red z) = 3"
    and comp: "list_all complete_team (alliances_blue z @ alliances_red z)"
    and rect: "list_all (\<lambda>r. length r = length (zebra_times z))
            (concat (map team_rows (alliances_blue z @ alliances_red z)))"
    by (simp_all add: valid_record_def)
  have six: "length (alliances_blue z) + length (alliances_red z) \<le> 6" using l by simp
  from Match_of_dict_ok [OF z comp rect scan six] obtain tms where
    m: "Match_of_dict d =
           Inr \<lparr>event = json_event d, match = json_match d,
                blue = map team_name (alliances_blue z), red = map team_name (alliances_red z),
                paths = concat (map team_rows (alliances_blue z @ alliances_red z)),
                times = zebra_times z, score = json_score d, teams = tms\<rparr>" by blast
  have "length (concat (map team_rows (alliances_blue z @ alliances_red z))) = 12"
    using rows_length [OF comp] l by simp
  with m show ?thesis by (simp add: Match_init_def)
qed

section \<open>Properties of the competition index\<close>

lemma fold_mindex_notin:
  "k \<notin> match ` set zms \<Longrightarrow>
   fold (\<lambda>(idx, zm) m. m(match zm \<mapsto> idx)) (enumerate n zms) m0 k = m0 k"
  by (induction zms arbitrary: n m0) auto

lemma fold_mindex_last:
  assumes "match zm = k" "k \<notin> match ` set post"
  shows "fold (\<lambda>(idx, zm) m. m(match zm \<mapsto> idx)) (enumerate n (pre @ zm # post)) m0 k =
         Some (n + length pre)"
proof -
  have "enumerate n (pre @ zm # post) =
        enumerate n pre @ (n + length pre, zm) # enumerate (Suc (n + length pre)) post"
    by (simp add: enumerate_append_eq)
  then show ?thesis using assms by (simp add: fold_mindex_notin)
qed

lemma build_mindex_notin: "k \<notin> match ` set zms \<Longrightarrow> build_mindex zms k = None"
  by (simp add: build_mindex_def fold_mindex_notin)

lemma build_mindex_lookup:
  assumes r: "r \<in> set zms"
  shows "\<exists>i. build_mindex zms (match r) = Some i \<and> i < length zms \<and>
             zms ! i = last (filter (\<lambda>zm. match zm = match r) zms)"
proof -
  have "\<exists>x\<in>set zms. match x = match r" using r by blast
  from split_list_last_prop [OF this] obtain pre zm post where
    s: "zms = pre @ zm # post" and zm: "match zm = match r"
    and post: "\<forall>z\<in>set post. match z \<noteq> match r" by blast
  have notin: "match r \<notin> match ` set post" using post by auto
  have "build_mindex zms (match r) = Some (length pre)"
    unfolding build_mindex_def s using fold_mindex_last [OF zm notin, of 0 pre Map.empty] by simp
  moreover have "filter (\<lambda>zm. match zm = match r) post = []" using post by (simp add: filter_empty_conv)
  then have "last (filter (\<lambda>zm. match zm = match r) zms) = zm" using zm s by simp
  moreover have "zms ! length pre = zm" "length pre < length zms" using s by simp_all
  ultimately show ?thesis by auto
qed

lemma decode_map:
  "map (\<lambda>line. case L line of None \<Rightarrow> Inl JSONDecodeError | Some d \<Rightarrow> Inr d) ls = map Inr ps \<Longrightarrow>
   map L ls = map Some ps"
proof (induction ls arbitrary: ps)
  case Nil
  then show ?case by simp
next
  case (Cons l ls)
  then show ?case by (cases ps) (auto split: option.splits)
qed

lemma Competitions_init_fields:
  assumes "Competitions_init L file = Inr c"
  shows "map L file = map Some (file_paths c)"
    and "mapM (\<lambda>path. Match_init L (Dict path)) (filter (\<lambda>path. json_zebra path \<noteq> None) (file_paths c)) = Inr (zmatches c)"
    and "mindex c = build_mindex (zmatches c)"
    and "events c = set (map event (zmatches c))"
    and "event_summary c = groupby_sum (map json_event (file_paths c))
           (map (\<lambda>path. if json_zebra path = None then 0 else 1) (file_paths c))"
proof -
  let ?dec = "\<lambda>line. case L line of None \<Rightarrow> Inl JSONDecodeError | Some d \<Rightarrow> Inr d"
  from assms obtain ps zms where
    ps: "mapM ?dec file = Inr ps" and
    zms: "mapM (\<lambda>path. Match_init L (Dict path)) (filter (\<lambda>path. json_zebra path \<noteq> None) ps) = Inr zms" and
    c: "c = \<lparr>file_paths = ps,
             event_summary = groupby_sum (map json_event ps) (map (\<lambda>path. if json_zebra path = None then 0 else 1) ps),
             zmatches = zms, mindex = build_mindex zms, events = set (map event zms)\<rparr>"
    by (auto simp: Competitions_init_def split: sum.splits)
  have "map ?dec file = map Inr ps" using ps by (rule mapM_Inr_map)
  then have "map L file = map Some ps" by (rule decode_map)
  then show "map L file = map Some (file_paths c)" using c by simp
  show "mapM (\<lambda>path. Match_init L (Dict path)) (filter (\<lambda>path. json_zebra path \<noteq> None) (file_paths c)) = Inr (zmatches c)"
    using zms c by simp
  show "mindex c = build_mindex (zmatches c)" using c by simp
  show "events c = set (map event (zmatches c))" using c by simp
  show "event_summary c = groupby_sum (map json_event (file_paths c))
           (map (\<lambda>path. if json_zebra path = None then 0 else 1) (file_paths c))" using c by simp
qed




lemmas index_defs = Competitions_init_def build_mindex_def Competitions_getitem_def
  Competitions_len_def matches_def groupby_sum_def

lemma decode_no_tracking:
  "list_all (\<lambda>line. case L line of None \<Rightarrow> False | Some d \<Rightarrow> json_zebra d = None) ls \<Longrightarrow>
   \<exists>ps. mapM (\<lambda>line. case L line of None \<Rightarrow> Inl JSONDecodeError | Some d \<Rightarrow> Inr d) ls = Inr ps \<and>
        filter (\<lambda>path. json_zebra path \<noteq> None) ps = []"
proof (induction ls)
  case Nil
  show ?case by simp
next
  case (Cons l ls)
  then show ?case by (auto split: option.splits)
qed

lemma scenario_init:
  "\<exists>c. Competitions_init (map_of scenario_table) (map fst scenario_table) = Inr c \<and>
       length (zmatches c) = 2 \<and> map match (zmatches c) = [''qm1'', ''qm3''] \<and>
       file_paths c = map snd scenario_table"
  by (simp add: scenario_table_def sample_defs match_defs index_defs)

lemma duplicate_init:
  "\<exists>c. Competitions_init (map_of duplicate_table) (map fst duplicate_table) = Inr c \<and>
       length (zmatches c) = 2 \<and> map match (zmatches c) = [''qm1'', ''qm1''] \<and>
       map event (zmatches c) = [''2020wasno'', ''2020waspo'']"
  by (simp add: duplicate_table_def sample_defs match_defs index_defs)

lemma length_two: "length xs = 2 \<Longrightarrow> \<exists>a b. xs = [a, b]"
proof -
  assume "length xs = 2"
  then have "length xs = Suc (Suc 0)" by simp
  then show ?thesis by (auto simp: length_Suc_conv)
qed

text \<open>
  C4. The claim: building the index from a file in which no line has tracking data fails
  with EmptyDataset. Nothing in the constructor looks at the number of matches: the file
  of two lines without tracking data gives an index without matches.
\<close>

theorem Competitions_init_no_tracking_counterexample:
  "\<exists>c. Competitions_init (map_of no_zebra_table) (map fst no_zebra_table) = Inr c \<and> zmatches c = []"
  by (simp add: no_zebra_table_def sample_line_def index_defs)

text \<open>
  C4, as amended. Building the index from a file in which every line is decoded and has
  no tracking data succeeds and gives the empty index: no matches, an empty key index, no
  events, length 0. On that index the matches of any event are the empty list, every
  lookup by key fails with \<^verbatim>\<open>KeyError\<close> and every lookup by position fails with
  \<^verbatim>\<open>IndexError\<close>.
\<close>

theorem Competitions_init_no_tracking:
  "list_all (\<lambda>line. case json_loads line of None \<Rightarrow> False | Some d \<Rightarrow> json_zebra d = None) file \<Longrightarrow>
   \<exists>c. Competitions_init json_loads file = Inr c \<and>
       zmatches c = [] \<and> mindex c = Map.empty \<and> events c = {} \<and>
       Competitions_len c = 0 \<and> matches c ev = [] \<and>
       Competitions_getitem c (KeyIdx k) = Inl KeyError \<and>
       Competitions_getitem c (IntIdx i) = Inl IndexError"
proof -
  assume "list_all (\<lambda>line. case json_loads line of None \<Rightarrow> False | Some d \<Rightarrow> json_zebra d = None) file"
  from decode_no_tracking [OF this] obtain ps where
    "mapM (\<lambda>line. case json_loads line of None \<Rightarrow> Inl JSONDecodeError | Some d \<Rightarrow> Inr d) file = Inr ps"
    "filter (\<lambda>path. json_zebra path \<noteq> None) ps = []" by blast
  then show ?thesis by (simp add: index_defs list_getitem_def)
qed

text \<open>
  C4, witness: the file of two lines without tracking data.
\<close>

theorem Competitions_init_no_tracking_witness:
  "list_all (\<lambda>line. case map_of no_zebra_table line of None \<Rightarrow> False | Some d \<Rightarrow> json_zebra d = None)
     (map fst no_zebra_table) \<and>
   (\<exists>c. Competitions_init (map_of no_zebra_table) (map fst no_zebra_table) = Inr c \<and>
       zmatches c = [] \<and> mindex c = Map.empty \<and> events c = {} \<and>
       Competitions_len c = 0 \<and> matches c ''2020wasno'' = [] \<and>
       Competitions_getitem c (KeyIdx ''qm1'') = Inl KeyError \<and>
       Competitions_getitem c (IntIdx 0) = Inl IndexError)"
proof -
  have h: "list_all (\<lambda>line. case map_of no_zebra_table line of None \<Rightarrow> False | Some d \<Rightarrow> json_zebra d = None)
     (map fst no_zebra_table)"
    by (simp add: no_zebra_table_def sample_line_def)
  from Competitions_init_no_tracking [OF h, of "''2020wasno''" "''qm1''" 0] h show ?thesis by blast
qed

text \<open>
  C5. The claim: \<open>get(position)\<close> fails exactly when the position is outside
  \<open>[0, len(records))\<close>, so that \<open>get(-1)\<close> fails on a non-empty index. The position indexes
  a Python list: on the index of the scenario, with two matches, \<open>get(-1)\<close> returns the
  last match.
\<close>

theorem Competitions_getitem_negative_counterexample:
  "\<exists>c. Competitions_init (map_of scenario_table) (map fst scenario_table) = Inr c \<and>
       zmatches c \<noteq> [] \<and>
       Competitions_getitem c (IntIdx (- 1)) = Inr (last (zmatches c))"
proof -
  from scenario_init obtain c where
    c: "Competitions_init (map_of scenario_table) (map fst scenario_table) = Inr c"
    and len: "length (zmatches c) = 2" by blast
  from len obtain m1 m2 where "zmatches c = [m1, m2]"
    using length_two by blast
  then have "zmatches c \<noteq> []" "Competitions_getitem c (IntIdx (- 1)) = Inr (last (zmatches c))"
    by (simp_all add: Competitions_getitem_def list_getitem_def)
  with c show ?thesis by blast
qed

text \<open>
  C5, as amended. \<open>get(position)\<close> fails with \<^verbatim>\<open>IndexError\<close> exactly when the position is
  outside \<open>[-len(records), len(records))\<close>; for a position in \<open>[0, len(records))\<close> it
  returns \<open>records[position]\<close>, and for a position in \<open>[-len(records), 0)\<close> it returns
  \<open>records[len(records) + position]\<close>.
\<close>

theorem Competitions_getitem_position:
  "(Competitions_getitem c (IntIdx i) = Inl IndexError \<longleftrightarrow>
      i < - int (length (zmatches c)) \<or> int (length (zmatches c)) \<le> i) \<and>
   (0 \<le> i \<and> i < int (length (zmatches c)) \<longrightarrow>
      Competitions_getitem c (IntIdx i) = Inr (zmatches c ! nat i)) \<and>
   (- int (length (zmatches c)) \<le> i \<and> i < 0 \<longrightarrow>
      Competitions_getitem c (IntIdx i) = Inr (zmatches c ! nat (int (length (zmatches c)) + i)))"
  by (auto simp: Competitions_getitem_def list_getitem_def)

text \<open>
  C5, witness: on the index of the scenario, with two matches, the positions 100, 1
  and -2.
\<close>

theorem Competitions_getitem_position_witness:
  "\<exists>c. Competitions_init (map_of scenario_table) (map fst scenario_table) = Inr c \<and>
       length (zmatches c) = 2 \<and>
       Competitions_getitem c (IntIdx 100) = Inl IndexError \<and>
       Competitions_getitem c (IntIdx 1) = Inr (zmatches c ! 1) \<and>
       Competitions_getitem c (IntIdx (- 2)) = Inr (zmatches c ! 0)"
proof -
  from scenario_init obtain c where
    c: "Competitions_init (map_of scenario_table) (map fst scenario_table) = Inr c"
    and len: "length (zmatches c) = 2" by blast
  from Competitions_getitem_position [of c 100] Competitions_getitem_position [of c 1]
    Competitions_getitem_position [of c "- 2"] len
  have "Competitions_getitem c (IntIdx 100) = Inl IndexError \<and>
       Competitions_getitem c (IntIdx 1) = Inr (zmatches c ! 1) \<and>
       Competitions_getitem c (IntIdx (- 2)) = Inr (zmatches c ! 0)" by simp
  with c len show ?thesis by blast
qed

text \<open>
  C6. The claim: for every record \<open>r\<close> of the index, the lookup of the match key of \<open>r\<close>
  gives \<open>r\<close>. In the file with two lines of one match key and different events, the key
  index holds the position of the second match, and the lookup of the key of the first
  match gives the second.
\<close>

theorem mindex_duplicate_counterexample:
  "\<exists>c. Competitions_init (map_of duplicate_table) (map fst duplicate_table) = Inr c \<and>
       (\<exists>r. r \<in> set (zmatches c) \<and> Competitions_getitem c (KeyIdx (match r)) \<noteq> Inr r)"
proof -
  from duplicate_init obtain c where
    c: "Competitions_init (map_of duplicate_table) (map fst duplicate_table) = Inr c"
    and len: "length (zmatches c) = 2"
    and ks: "map match (zmatches c) = [''qm1'', ''qm1'']"
    and es: "map event (zmatches c) = [''2020wasno'', ''2020waspo'']" by auto
  from len obtain m1 m2 where z: "zmatches c = [m1, m2]"
    using length_two by blast
  have ne: "m1 \<noteq> m2" using es z by auto
  have "mindex c = build_mindex (zmatches c)" using c by (rule Competitions_init_fields(3))
  then have "Competitions_getitem c (KeyIdx (match m1)) = Inr m2"
    using z ks by (simp add: Competitions_getitem_def build_mindex_def list_getitem_def)
  then have "m1 \<in> set (zmatches c) \<and> Competitions_getitem c (KeyIdx (match m1)) \<noteq> Inr m1"
    using z ne by simp
  with c show ?thesis by blast
qed

text \<open>
  C6, as amended. After the construction of the index, for every record \<open>r\<close> of
  \<open>records\<close>, the lookup of the match key of \<open>r\<close> gives the last record of \<open>records\<close> with
  that match key (a later match key replaces an earlier one in the key index); it gives
  \<open>r\<close> itself when the match keys of \<open>records\<close> are distinct.
\<close>

theorem mindex_round_trip:
  "Competitions_init json_loads file = Inr c \<Longrightarrow> r \<in> set (zmatches c) \<Longrightarrow>
   Competitions_getitem c (KeyIdx (match r)) =
     Inr (last (filter (\<lambda>zm. match zm = match r) (zmatches c))) \<and>
   (distinct (map match (zmatches c)) \<longrightarrow> Competitions_getitem c (KeyIdx (match r)) = Inr r)"
proof -
  assume init: "Competitions_init json_loads file = Inr c" and r: "r \<in> set (zmatches c)"
  let ?l = "last (filter (\<lambda>zm. match zm = match r) (zmatches c))"
  from build_mindex_lookup [OF r] obtain i where
    i: "build_mindex (zmatches c) (match r) = Some i" "i < length (zmatches c)" "zmatches c ! i = ?l"
    by blast
  have get: "Competitions_getitem c (KeyIdx (match r)) = Inr ?l"
    using i Competitions_init_fields(3) [OF init]
    by (simp add: Competitions_getitem_def list_getitem_nat)
  have "?l = r" if d: "distinct (map match (zmatches c))"
  proof -
    have "filter (\<lambda>zm. match zm = match r) (zmatches c) \<noteq> []"
      using r by (auto simp: filter_empty_conv)
    then have "?l \<in> set (filter (\<lambda>zm. match zm = match r) (zmatches c))" by (rule last_in_set)
    then have "?l \<in> set (zmatches c)" "match ?l = match r" by simp_all
    with d r show ?thesis by (meson distinct_map inj_onD)
  qed
  with get show ?thesis by simp
qed

text \<open>
  C6, witness: the index of the scenario, whose match keys are distinct, and its first
  match.
\<close>

theorem mindex_round_trip_witness:
  "\<exists>c r. Competitions_init (map_of scenario_table) (map fst scenario_table) = Inr c \<and>
       r \<in> set (zmatches c) \<and> distinct (map match (zmatches c)) \<and>
       Competitions_getitem c (KeyIdx (match r)) = Inr r"
proof -
  from scenario_init obtain c where
    c: "Competitions_init (map_of scenario_table) (map fst scenario_table) = Inr c"
    and len: "length (zmatches c) = 2"
    and ks: "map match (zmatches c) = [''qm1'', ''qm3'']" by auto
  from len obtain m1 m2 where z: "zmatches c = [m1, m2]"
    using length_two by blast
  have r: "m1 \<in> set (zmatches c)" using z by simp
  have d: "distinct (map match (zmatches c))" using ks by simp
  from mindex_round_trip [OF c r] d
  have "Competitions_getitem c (KeyIdx (match m1)) = Inr m1" by blast
  with c r d show ?thesis by blast
qed



end
